theory Spec2Isabelle
  imports Main
begin

section \<open>The error handler registry of src/error.ts\<close>

text \<open>
  The module keeps one static array, \<open>customeErrorHandlers\<close>, of pairs of a condition
  name and a user function, and \<open>register\<close> attaches five asynchronous listeners to the
  process. What a listener does is observable only through its calls of other code:
  the console, the user functions, \<open>sendCrashResponse\<close>, \<open>server.close\<close> and
  \<open>process.exit\<close>. The model records these calls as a list of events, each stamped
  with the turn of the event loop in which it happens, counted from the delivery of the
  condition.

  A user function is known by what it returns. It is taken to leave the module alone:
  it does not call \<open>on\<close>, \<open>register\<close> or \<open>process.exit\<close> itself.
\<close>

subsection \<open>Values and user functions\<close>

datatype js_value = Error string | Number int | Str string

text \<open>
  What a user function does when it is called with the condition name. It may return a
  plain value or throw at once, or return a promise that fulfils or rejects some turns
  later, or one that never settles.
\<close>

datatype outcome = Returns | Throws | Resolves nat | Rejects nat | Hangs

record listener =
  lid :: nat
  run :: "string \<Rightarrow> outcome"

text \<open>A promise is known by how it settles, and in which turn.\<close>

datatype promise = Fulfilled nat | Rejected nat | Pending

text \<open>\<open>await f(signal)\<close> inside an async arrow function: the promise of that function.\<close>

fun awaited :: "outcome \<Rightarrow> promise" where
  "awaited Returns = Fulfilled 0"
| "awaited Throws = Rejected 0"
| "awaited (Resolves n) = Fulfilled n"
| "awaited (Rejects n) = Rejected n"
| "awaited Hangs = Pending"

text \<open>
  \<open>Promise.all\<close> of two promises, and of a list: it rejects with the first rejection,
  and fulfils once every member has fulfilled.
\<close>

fun both :: "promise \<Rightarrow> promise \<Rightarrow> promise" where
  "both (Rejected a) (Rejected b) = Rejected (min a b)"
| "both (Rejected a) q = Rejected a"
| "both p (Rejected b) = Rejected b"
| "both Pending q = Pending"
| "both p Pending = Pending"
| "both (Fulfilled a) (Fulfilled b) = Fulfilled (max a b)"

fun Promise_all :: "promise list \<Rightarrow> promise" where
  "Promise_all [] = Fulfilled 0"
| "Promise_all (p # ps) = both p (Promise_all ps)"

subsection \<open>Events\<close>

type_synonym server = nat
type_synonym response = nat

text \<open>
  A function value that ends the process when it is called:
  \<open>process.exit.bind(process, 16)\<close> and \<open>() => { process.exit(); }\<close>.
\<close>

datatype callback = Exits "int option"

record crash_options =
  err :: js_value
  res :: response
  callback :: "callback option"
  silent :: "bool option"

datatype event =
    Console_error string
  | Console_log string
  | Call nat string
  | SendCrashResponse crash_options
  | Server_close server
  | Close_callback server
  | Process_exit "int option"

type_synonym timed = "nat \<times> event"

text \<open>
  The collaborators this module only reads: \<open>Response.latest\<close> as it stands in a
  given turn, and how many turns a server takes to finish closing, if it ever does. The
  third field is what a template literal prints for a number from \<open>1e21\<close> on: the
  runtime prints it with an exponent, and the digits it chooses are not modelled.
\<close>

record world =
  Response_latest :: "nat \<Rightarrow> response"
  closes_after :: "server \<Rightarrow> nat option"
  exponent_form :: "int \<Rightarrow> string"

subsection \<open>killInstance and callCustomErrorHandler\<close>

definition killInstance :: callback where
  "killInstance = Exits (Some 16)"

fun invoke :: "callback \<Rightarrow> event" where
  "invoke (Exits c) = Process_exit c"

text \<open>
  The map over \<open>customeErrorHandlers\<close>. Each async arrow function runs up to its
  await while map visits its entry, so the user functions are called in the order of the
  array, and map yields one promise for each entry. The result is the calls made and
  \<open>Promise.all\<close> of those promises.
\<close>

definition errorPromises ::
  "(string \<times> listener) list \<Rightarrow> string \<Rightarrow> (event list \<times> promise) list" where
  "errorPromises handlers signal =
     map (\<lambda>(errorHandlerSignal, errorHandlerFunction).
            if signal = errorHandlerSignal
            then ([Call (lid errorHandlerFunction) signal],
                  awaited (run errorHandlerFunction signal))
            else ([], Fulfilled 0))
         handlers"

definition callCustomErrorHandler ::
  "(string \<times> listener) list \<Rightarrow> string \<Rightarrow> event list \<times> promise" where
  "callCustomErrorHandler handlers signal =
     (concat (map fst (errorPromises handlers signal)),
      Promise_all (map snd (errorPromises handlers signal)))"

subsection \<open>The five listeners of register\<close>

text \<open>
  The rest of an async function after \<open>await p\<close>. It runs in the turn in which
  \<open>p\<close> fulfils. When \<open>p\<close> rejects the await throws and the function ends there:
  no listener has a try block. When \<open>p\<close> never settles the function never resumes.

  A listener is followed to its end: but for the exit of the process, the process is
  taken to be alive in the turn of the continuation. What the runtime does with the
  rejected promise of a listener that ended in a throw is not part of the model.
\<close>

definition await :: "promise \<Rightarrow> (nat \<Rightarrow> timed list) \<Rightarrow> timed list" where
  "await p rest = (case p of Fulfilled t \<Rightarrow> rest t | Rejected t \<Rightarrow> [] | Pending \<Rightarrow> [])"

text \<open>
  The template literal applied to a number, a string or an Error object. A number below
  \<open>1e21\<close> in size is printed in decimal.
\<close>

fun decimal :: "nat \<Rightarrow> string" where
  "decimal n =
     (if n < 10 then [''0123456789'' ! n]
      else decimal (n div 10) @ [''0123456789'' ! (n mod 10)])"

declare decimal.simps [simp del]

fun to_string :: "world \<Rightarrow> js_value \<Rightarrow> string" where
  "to_string w (Number n) =
     (if 10 ^ 21 \<le> \<bar>n\<bar> then exponent_form w n
      else if n < 0 then CHR ''-'' # decimal (nat (- n))
      else decimal (nat n))"
| "to_string w (Str s) = s"
| "to_string w (Error m) = (if m = [] then ''Error'' else ''Error: '' @ m)"

definition uncaughtException_listener ::
  "world \<Rightarrow> (string \<times> listener) list \<Rightarrow> js_value \<Rightarrow> timed list" where
  "uncaughtException_listener w handlers e =
     (0, Console_error ''Uncaught exception'') #
     (case callCustomErrorHandler handlers ''uncaughtException'' of
        (calls, p) \<Rightarrow>
          map (Pair 0) calls @
          await p (\<lambda>t. [(t, SendCrashResponse
                \<lparr>err = e, res = Response_latest w t,
                 callback = Some killInstance, silent = None\<rparr>)]))"

definition unhandledRejection_listener ::
  "world \<Rightarrow> (string \<times> listener) list \<Rightarrow> js_value \<Rightarrow> timed list" where
  "unhandledRejection_listener w handlers e =
     (0, Console_error ''Unhandled rejection'') #
     (case callCustomErrorHandler handlers ''unhandledRejection'' of
        (calls, p) \<Rightarrow>
          map (Pair 0) calls @
          await p (\<lambda>t. [(t, SendCrashResponse
                \<lparr>err = e, res = Response_latest w t,
                 callback = Some killInstance, silent = None\<rparr>)]))"

text \<open>
  Node.js calls the listeners of \<open>exit\<close> one after the other and ends the process
  as soon as they have returned. An async listener returns at its first await, also when
  the promise has settled already, so what stands after that await is left queued and
  never runs.
\<close>

definition abandoned :: "timed list \<Rightarrow> timed list" where
  "abandoned queued = []"

definition exit_listener ::
  "world \<Rightarrow> (string \<times> listener) list \<Rightarrow> js_value \<Rightarrow> timed list" where
  "exit_listener w handlers code =
     (case callCustomErrorHandler handlers ''exit'' of
        (calls, p) \<Rightarrow>
          map (Pair 0) calls @
          abandoned
            (await p (\<lambda>t. [(t, SendCrashResponse
                \<lparr>err = Error (''Process exited with code '' @ to_string w code),
                 res = Response_latest w t,
                 callback = None, silent = Some (code = Number 0)\<rparr>)])))"

text \<open>
  \<open>server.close(f)\<close>: the call, and the server calling \<open>f\<close> once it has closed.
\<close>

definition server_close :: "world \<Rightarrow> server \<Rightarrow> callback \<Rightarrow> nat \<Rightarrow> timed list" where
  "server_close w s f t =
     (t, Server_close s) #
     (case closes_after w s of
        None \<Rightarrow> []
      | Some d \<Rightarrow> [(t + d, Close_callback s), (t + d, invoke f)])"

definition signal_listener ::
  "world \<Rightarrow> (string \<times> listener) list \<Rightarrow> server \<Rightarrow> string \<Rightarrow> timed list" where
  "signal_listener w handlers s signal =
     (0, Console_log (''Received '' @ signal)) #
     (case callCustomErrorHandler handlers signal of
        (calls, p) \<Rightarrow>
          map (Pair 0) calls @
          await p (\<lambda>t. server_close w s (Exits None) t))"

subsection \<open>The process: register, on and the delivery of a condition\<close>

text \<open>The closures that \<open>register\<close> hands to \<open>process.on\<close>.\<close>

datatype process_listener =
    Uncaught_exception
  | Unhandled_rejection
  | Exit
  | Signal server string

record process =
  customeErrorHandlers :: "(string \<times> listener) list"
  listeners :: "(string \<times> process_listener) list"

definition initial :: process where
  "initial = \<lparr>customeErrorHandlers = [], listeners = []\<rparr>"

definition register :: "server \<Rightarrow> process \<Rightarrow> process" where
  "register s p =
     p\<lparr>listeners := listeners p @
          [(''uncaughtException'', Uncaught_exception),
           (''unhandledRejection'', Unhandled_rejection),
           (''exit'', Exit)] @
          map (\<lambda>signal. (signal, Signal s signal)) [''SIGINT'', ''SIGTERM'']\<rparr>"

definition on :: "string \<Rightarrow> listener \<Rightarrow> process \<Rightarrow> process" where
  "on error l p = p\<lparr>customeErrorHandlers := customeErrorHandlers p @ [(error, l)]\<rparr>"

fun call_listener ::
  "world \<Rightarrow> (string \<times> listener) list \<Rightarrow> process_listener \<Rightarrow> js_value \<Rightarrow> timed list" where
  "call_listener w handlers Uncaught_exception a = uncaughtException_listener w handlers a"
| "call_listener w handlers Unhandled_rejection a = unhandledRejection_listener w handlers a"
| "call_listener w handlers Exit a = exit_listener w handlers a"
| "call_listener w handlers (Signal s signal) a = signal_listener w handlers s signal"

text \<open>
  \<open>process.emit\<close>: every listener attached under the event name is called with the
  argument, in the order of attachment. The result has one trace for each of them; the
  traces of several listeners are kept apart, not interleaved.
\<close>

definition emit :: "world \<Rightarrow> process \<Rightarrow> string \<Rightarrow> js_value \<Rightarrow> timed list list" where
  "emit w p name a =
     map (\<lambda>l. call_listener w (customeErrorHandlers p) l a)
         (map snd (filter (\<lambda>(n, l). n = name) (listeners p)))"

text \<open>
  The five conditions, and the event name and argument with which Node.js delivers each
  of them.
\<close>

datatype condition =
    UncaughtException js_value
  | UnhandledRejection js_value
  | ProcessExit int
  | SIGINT
  | SIGTERM

fun event_name :: "condition \<Rightarrow> string" where
  "event_name (UncaughtException e) = ''uncaughtException''"
| "event_name (UnhandledRejection e) = ''unhandledRejection''"
| "event_name (ProcessExit c) = ''exit''"
| "event_name SIGINT = ''SIGINT''"
| "event_name SIGTERM = ''SIGTERM''"

fun event_arg :: "condition \<Rightarrow> js_value" where
  "event_arg (UncaughtException e) = e"
| "event_arg (UnhandledRejection e) = e"
| "event_arg (ProcessExit c) = Number c"
| "event_arg SIGINT = Str ''SIGINT''"
| "event_arg SIGTERM = Str ''SIGTERM''"

definition trigger :: "world \<Rightarrow> process \<Rightarrow> condition \<Rightarrow> timed list list" where
  "trigger w p c = emit w p (event_name c) (event_arg c)"

subsection \<open>Reading a trace\<close>

fun call_of :: "event \<Rightarrow> (nat \<times> string) list" where
  "call_of (Call i s) = [(i, s)]"
| "call_of e = []"

definition calls :: "timed list \<Rightarrow> (nat \<times> string) list" where
  "calls tr = concat (map (call_of \<circ> snd) tr)"

definition invocations :: "nat \<Rightarrow> timed list \<Rightarrow> string list" where
  "invocations h tr = map snd (filter (\<lambda>(i, s). i = h) (calls tr))"

definition matching :: "string \<Rightarrow> (string \<times> listener) list \<Rightarrow> listener list" where
  "matching signal handlers = map snd (filter (\<lambda>(n, l). n = signal) handlers)"

subsection \<open>Properties of traces and of processes\<close>

text \<open>The name under which a listener of \<open>register\<close> looks up the custom handlers.\<close>

fun dispatch_name :: "process_listener \<Rightarrow> string" where
  "dispatch_name Uncaught_exception = ''uncaughtException''"
| "dispatch_name Unhandled_rejection = ''unhandledRejection''"
| "dispatch_name Exit = ''exit''"
| "dispatch_name (Signal s signal) = signal"

text \<open>What one call of \<open>register\<close> attaches.\<close>

definition five :: "server \<Rightarrow> (string \<times> process_listener) list" where
  "five s =
     [(''uncaughtException'', Uncaught_exception),
      (''unhandledRejection'', Unhandled_rejection),
      (''exit'', Exit),
      (''SIGINT'', Signal s ''SIGINT''),
      (''SIGTERM'', Signal s ''SIGTERM'')]"

text \<open>The processes that calls of \<open>register\<close> and \<open>on\<close> can produce.\<close>

inductive reachable :: "process \<Rightarrow> bool" where
  start: "reachable initial"
| registered: "reachable p \<Longrightarrow> reachable (register s p)"
| added: "reachable p \<Longrightarrow> reachable (on error l p)"

fun send_of :: "timed \<Rightarrow> (nat \<times> crash_options) list" where
  "send_of (t, SendCrashResponse opts) = [(t, opts)]"
| "send_of (t, e) = []"

definition crash_responses :: "timed list \<Rightarrow> (nat \<times> crash_options) list" where
  "crash_responses tr = concat (map send_of tr)"

fun is_log :: "event \<Rightarrow> bool" where
  "is_log (Console_error m) = True"
| "is_log (Console_log m) = True"
| "is_log e = False"

fun is_call :: "event \<Rightarrow> bool" where
  "is_call (Call i s) = True"
| "is_call e = False"

fun is_finalize :: "event \<Rightarrow> bool" where
  "is_finalize (SendCrashResponse opts) = True"
| "is_finalize (Server_close s) = True"
| "is_finalize (Close_callback s) = True"
| "is_finalize (Process_exit c) = True"
| "is_finalize e = False"

text \<open>Every event of the first kind stands before every event of the second kind.\<close>

definition happens_before :: "(event \<Rightarrow> bool) \<Rightarrow> (event \<Rightarrow> bool) \<Rightarrow> timed list \<Rightarrow> bool" where
  "happens_before P Q tr \<longleftrightarrow>
     (\<forall>i<length tr. \<forall>j<length tr. P (snd (tr ! i)) \<and> Q (snd (tr ! j)) \<longrightarrow> i < j)"

text \<open>
  Not in the repository: the exit codes that Node.js uses itself, from the page of its
  documentation that the comment above \<open>killInstance\<close> links to. They are 1 to 14, and
  the codes above 128 that stand for a fatal signal.
\<close>

definition nodejs_exit_code :: "int \<Rightarrow> bool" where
  "nodejs_exit_code c \<longleftrightarrow> (1 \<le> c \<and> c \<le> 14) \<or> 128 < c"

section \<open>Lemmas on the fan-out\<close>

lemma errorPromises_Nil [simp]: "errorPromises [] signal = []"
  by (simp add: errorPromises_def)

lemma errorPromises_Cons:
  "errorPromises ((n, l) # hs) signal =
     (if signal = n then ([Call (lid l) signal], awaited (run l signal)) else ([], Fulfilled 0))
     # errorPromises hs signal"
  by (simp add: errorPromises_def)

lemma errorPromises_append:
  "errorPromises (xs @ ys) signal = errorPromises xs signal @ errorPromises ys signal"
  by (simp add: errorPromises_def)

lemma errorPromises_run_irrelevant:
  "errorPromises (map (\<lambda>(n, l). (n, if n = signal then l else l\<lparr>run := r\<rparr>)) hs) signal =
     errorPromises hs signal"
  by (induction hs) (auto simp add: errorPromises_def)

lemma matching_Nil [simp]: "matching signal [] = []"
  by (simp add: matching_def)

lemma matching_Cons:
  "matching signal ((n, l) # hs) = (if n = signal then l # matching signal hs else matching signal hs)"
  by (simp add: matching_def)

lemma matching_append: "matching signal (xs @ ys) = matching signal xs @ matching signal ys"
  by (simp add: matching_def)

lemma fst_callCustomErrorHandler:
  "fst (callCustomErrorHandler hs signal) = map (\<lambda>l. Call (lid l) signal) (matching signal hs)"
proof (induction hs)
  case Nil
  show ?case by (simp add: callCustomErrorHandler_def)
next
  case (Cons x hs)
  obtain n l where x: "x = (n, l)" by (cases x)
  from Cons show ?case
    by (auto simp add: callCustomErrorHandler_def x errorPromises_Cons matching_Cons)
qed

lemma both_Fulfilled:
  "both p q = Fulfilled t \<longleftrightarrow> (\<exists>a b. p = Fulfilled a \<and> q = Fulfilled b \<and> t = max a b)"
  by (cases p; cases q) auto

lemma both_Fulfilled_0 [simp]: "both p (Fulfilled 0) = p"
  by (cases p) simp_all

lemma Promise_all_snoc_Fulfilled_0 [simp]: "Promise_all (ps @ [Fulfilled 0]) = Promise_all ps"
  by (induction ps) simp_all

lemma Promise_all_Fulfilled_member:
  "Promise_all ps = Fulfilled t \<Longrightarrow> p \<in> set ps \<Longrightarrow> \<exists>n\<le>t. p = Fulfilled n"
proof (induction ps arbitrary: t)
  case Nil
  then show ?case by simp
next
  case (Cons q ps)
  from Cons.prems(1) obtain a b where
    q: "q = Fulfilled a" and r: "Promise_all ps = Fulfilled b" and t: "t = max a b"
    by (auto simp add: both_Fulfilled)
  show ?case
  proof (cases "p = q")
    case True
    with q t show ?thesis by auto
  next
    case False
    with Cons.prems(2) have "p \<in> set ps" by simp
    from Cons.IH [OF r this] obtain n where "n \<le> b" "p = Fulfilled n" by blast
    with t show ?thesis by auto
  qed
qed

lemma Promise_all_Fulfilled_total:
  "(\<And>p. p \<in> set ps \<Longrightarrow> \<exists>n. p = Fulfilled n) \<Longrightarrow> \<exists>t. Promise_all ps = Fulfilled t"
proof (induction ps)
  case Nil
  show ?case by simp
next
  case (Cons q ps)
  then obtain a where "q = Fulfilled a" by auto
  moreover from Cons obtain b where "Promise_all ps = Fulfilled b" by auto
  ultimately show ?case by simp
qed

lemma snd_errorPromises_member:
  "q \<in> set (map snd (errorPromises hs signal)) \<Longrightarrow>
     q = Fulfilled 0 \<or> (\<exists>l \<in> set (matching signal hs). q = awaited (run l signal))"
  by (auto simp add: errorPromises_def matching_def split: if_splits)

lemma matching_in_errorPromises:
  "l \<in> set (matching signal hs) \<Longrightarrow> awaited (run l signal) \<in> set (map snd (errorPromises hs signal))"
  by (force simp add: errorPromises_def matching_def)

lemma callCustomErrorHandler_settled:
  assumes "snd (callCustomErrorHandler hs signal) = Fulfilled t"
    and "l \<in> set (matching signal hs)"
  shows "\<exists>n\<le>t. awaited (run l signal) = Fulfilled n"
  using assms Promise_all_Fulfilled_member [OF _ matching_in_errorPromises]
  by (simp add: callCustomErrorHandler_def)

lemma callCustomErrorHandler_fulfils:
  assumes "\<And>l. l \<in> set (matching signal hs) \<Longrightarrow> \<exists>n. awaited (run l signal) = Fulfilled n"
  shows "\<exists>t. snd (callCustomErrorHandler hs signal) = Fulfilled t"
proof -
  have "\<exists>t. Promise_all (map snd (errorPromises hs signal)) = Fulfilled t"
  proof (rule Promise_all_Fulfilled_total)
    fix p assume "p \<in> set (map snd (errorPromises hs signal))"
    from snd_errorPromises_member [OF this] assms show "\<exists>n. p = Fulfilled n" by auto
  qed
  then show ?thesis by (simp add: callCustomErrorHandler_def)
qed

lemma callCustomErrorHandler_other:
  "n \<noteq> signal \<Longrightarrow>
     callCustomErrorHandler (hs @ [(n, l)]) signal = callCustomErrorHandler hs signal"
  by (simp add: callCustomErrorHandler_def errorPromises_append errorPromises_Cons)

section \<open>Lemmas on the listeners\<close>

lemma await_member:
  "x \<in> set (await p k) \<Longrightarrow> \<exists>t. p = Fulfilled t \<and> x \<in> set (k t)"
  by (cases p) (simp_all add: await_def)

lemma await_Fulfilled [simp]: "await (Fulfilled t) k = k t"
  by (simp add: await_def)

lemma uncaughtException_listener_eq:
  "uncaughtException_listener w hs e =
     (0, Console_error ''Uncaught exception'') #
     map (Pair 0 \<circ> (\<lambda>l. Call (lid l) ''uncaughtException'')) (matching ''uncaughtException'' hs) @
     await (snd (callCustomErrorHandler hs ''uncaughtException''))
       (\<lambda>t. [(t, SendCrashResponse \<lparr>err = e, res = Response_latest w t,
                 callback = Some killInstance, silent = None\<rparr>)])"
  using fst_callCustomErrorHandler [of hs "''uncaughtException''"]
  by (simp add: uncaughtException_listener_def case_prod_beta)

lemma unhandledRejection_listener_eq:
  "unhandledRejection_listener w hs e =
     (0, Console_error ''Unhandled rejection'') #
     map (Pair 0 \<circ> (\<lambda>l. Call (lid l) ''unhandledRejection'')) (matching ''unhandledRejection'' hs) @
     await (snd (callCustomErrorHandler hs ''unhandledRejection''))
       (\<lambda>t. [(t, SendCrashResponse \<lparr>err = e, res = Response_latest w t,
                 callback = Some killInstance, silent = None\<rparr>)])"
  using fst_callCustomErrorHandler [of hs "''unhandledRejection''"]
  by (simp add: unhandledRejection_listener_def case_prod_beta)

lemma exit_listener_eq:
  "exit_listener w hs code =
     map (Pair 0 \<circ> (\<lambda>l. Call (lid l) ''exit'')) (matching ''exit'' hs)"
  using fst_callCustomErrorHandler [of hs "''exit''"]
  by (simp add: exit_listener_def abandoned_def case_prod_beta)

lemma signal_listener_eq:
  "signal_listener w hs s signal =
     (0, Console_log (''Received '' @ signal)) #
     map (Pair 0 \<circ> (\<lambda>l. Call (lid l) signal)) (matching signal hs) @
     await (snd (callCustomErrorHandler hs signal)) (\<lambda>t. server_close w s (Exits None) t)"
  using fst_callCustomErrorHandler [of hs signal]
  by (simp add: signal_listener_def case_prod_beta)

lemma server_close_member:
  "x \<in> set (server_close w s f t) \<Longrightarrow> is_finalize (snd x) \<and> t \<le> fst x"
  by (cases f) (auto simp add: server_close_def split: option.splits)

lemma call_listener_other:
  "n \<noteq> dispatch_name pl \<Longrightarrow>
     call_listener w (hs @ [(n, l)]) pl a = call_listener w hs pl a"
  by (cases pl)
     (simp_all add: uncaughtException_listener_def unhandledRejection_listener_def
        exit_listener_def signal_listener_def callCustomErrorHandler_other)

lemma call_listener_cong:
  "callCustomErrorHandler hs' (dispatch_name pl) = callCustomErrorHandler hs (dispatch_name pl) \<Longrightarrow>
     call_listener w hs' pl a = call_listener w hs pl a"
  by (cases pl)
     (simp_all add: uncaughtException_listener_def unhandledRejection_listener_def
        exit_listener_def signal_listener_def)

lemma calls_Nil [simp]: "calls [] = []"
  by (simp add: calls_def)

lemma calls_Cons [simp]: "calls ((t, e) # tr) = call_of e @ calls tr"
  by (simp add: calls_def)

lemma calls_append [simp]: "calls (xs @ ys) = calls xs @ calls ys"
  by (simp add: calls_def)

lemma calls_of_Calls [simp]:
  "calls (map (Pair t \<circ> (\<lambda>l. Call (lid l) signal)) ls) = map (\<lambda>l. (lid l, signal)) ls"
  by (induction ls) simp_all

lemma calls_server_close [simp]: "calls (server_close w s f t) = []"
  by (cases f) (simp add: server_close_def split: option.splits)

lemma calls_call_listener:
  "calls (call_listener w hs pl a) =
     map (\<lambda>l. (lid l, dispatch_name pl)) (matching (dispatch_name pl) hs)"
proof -
  obtain cs pr where cc: "callCustomErrorHandler hs (dispatch_name pl) = (cs, pr)"
    by (cases "callCustomErrorHandler hs (dispatch_name pl)")
  with fst_callCustomErrorHandler [of hs "dispatch_name pl"]
  have cs: "cs = map (\<lambda>l. Call (lid l) (dispatch_name pl)) (matching (dispatch_name pl) hs)"
    by simp
  show ?thesis
  proof (cases pl)
    case Uncaught_exception
    with cc cs show ?thesis
      by (cases pr) (simp_all add: uncaughtException_listener_def await_def)
  next
    case Unhandled_rejection
    with cc cs show ?thesis
      by (cases pr) (simp_all add: unhandledRejection_listener_def await_def)
  next
    case Exit
    with cc cs show ?thesis
      by (simp add: exit_listener_def abandoned_def)
  next
    case (Signal s signal)
    with cc cs show ?thesis
      by (cases pr) (simp_all add: signal_listener_def await_def)
  qed
qed

lemma crash_responses_Nil [simp]: "crash_responses [] = []"
  by (simp add: crash_responses_def)

lemma crash_responses_Cons [simp]: "crash_responses (x # tr) = send_of x @ crash_responses tr"
  by (simp add: crash_responses_def)

lemma crash_responses_append [simp]:
  "crash_responses (xs @ ys) = crash_responses xs @ crash_responses ys"
  by (simp add: crash_responses_def)

lemma crash_responses_Calls [simp]:
  "crash_responses (map (Pair t \<circ> (\<lambda>l. Call (lid l) signal)) ls) = []"
  by (induction ls) simp_all

lemma crash_responses_server_close [simp]: "crash_responses (server_close w s f t) = []"
  by (cases f) (simp add: server_close_def split: option.splits)

lemma crash_responses_await_member:
  "x \<in> set (crash_responses (await p k)) \<Longrightarrow> \<exists>t. p = Fulfilled t \<and> x \<in> set (crash_responses (k t))"
  by (cases p) (simp_all add: await_def)

lemma kinds_disjoint:
  "is_log e \<Longrightarrow> \<not> is_call e \<and> \<not> is_finalize e"
  "is_call e \<Longrightarrow> \<not> is_log e \<and> \<not> is_finalize e"
  "is_finalize e \<Longrightarrow> \<not> is_log e \<and> \<not> is_call e"
  by (cases e; simp)+

lemma happens_before_append:
  assumes "\<forall>x \<in> set xs. \<not> Q (snd x)" and "\<forall>y \<in> set ys. \<not> P (snd y)"
  shows "happens_before P Q (xs @ ys)"
  unfolding happens_before_def
proof (intro allI impI)
  fix i j
  assume i: "i < length (xs @ ys)" and j: "j < length (xs @ ys)"
    and PQ: "P (snd ((xs @ ys) ! i)) \<and> Q (snd ((xs @ ys) ! j))"
  have "i < length xs"
  proof (rule ccontr)
    assume "\<not> i < length xs"
    with i have "(xs @ ys) ! i \<in> set ys"
      by (simp add: nth_append)
    with assms(2) PQ show False by blast
  qed
  moreover have "length xs \<le> j"
  proof (rule ccontr)
    assume "\<not> length xs \<le> j"
    then have "(xs @ ys) ! j \<in> set xs"
      by (simp add: nth_append)
    with assms(1) PQ show False by blast
  qed
  ultimately show "i < j" by simp
qed

lemma call_listener_shape:
  "\<exists>pre fin.
     call_listener w hs pl a =
       pre @ map (Pair 0 \<circ> (\<lambda>l. Call (lid l) (dispatch_name pl))) (matching (dispatch_name pl) hs) @ fin \<and>
     (\<forall>x \<in> set pre. is_log (snd x)) \<and> (pl \<noteq> Exit \<longrightarrow> pre \<noteq> []) \<and>
     (\<forall>x \<in> set fin. is_finalize (snd x) \<and>
        (\<exists>t\<le>fst x. snd (callCustomErrorHandler hs (dispatch_name pl)) = Fulfilled t))"
proof (cases pl)
  case Uncaught_exception
  let ?pre = "[(0::nat, Console_error ''Uncaught exception'')]"
  let ?fin = "await (snd (callCustomErrorHandler hs ''uncaughtException''))
       (\<lambda>t. [(t, SendCrashResponse \<lparr>err = a, res = Response_latest w t,
                 callback = Some killInstance, silent = None\<rparr>)])"
  have "\<forall>x \<in> set ?fin. is_finalize (snd x) \<and>
          (\<exists>t\<le>fst x. snd (callCustomErrorHandler hs ''uncaughtException'') = Fulfilled t)"
    by (auto dest!: await_member)
  then show ?thesis
    unfolding Uncaught_exception
    by (intro exI [of _ ?pre] exI [of _ ?fin]) (simp add: uncaughtException_listener_eq)
next
  case Unhandled_rejection
  let ?pre = "[(0::nat, Console_error ''Unhandled rejection'')]"
  let ?fin = "await (snd (callCustomErrorHandler hs ''unhandledRejection''))
       (\<lambda>t. [(t, SendCrashResponse \<lparr>err = a, res = Response_latest w t,
                 callback = Some killInstance, silent = None\<rparr>)])"
  have "\<forall>x \<in> set ?fin. is_finalize (snd x) \<and>
          (\<exists>t\<le>fst x. snd (callCustomErrorHandler hs ''unhandledRejection'') = Fulfilled t)"
    by (auto dest!: await_member)
  then show ?thesis
    unfolding Unhandled_rejection
    by (intro exI [of _ ?pre] exI [of _ ?fin]) (simp add: unhandledRejection_listener_eq)
next
  case Exit
  show ?thesis
    unfolding Exit
    by (intro exI [of _ "[]"]) (simp add: exit_listener_eq)
next
  case (Signal s signal)
  let ?pre = "[(0::nat, Console_log (''Received '' @ signal))]"
  let ?fin = "await (snd (callCustomErrorHandler hs signal)) (\<lambda>t. server_close w s (Exits None) t)"
  have "\<forall>x \<in> set ?fin. is_finalize (snd x) \<and>
          (\<exists>t\<le>fst x. snd (callCustomErrorHandler hs signal) = Fulfilled t)"
    by (auto dest!: await_member server_close_member)
  then show ?thesis
    unfolding Signal
    by (intro exI [of _ ?pre] exI [of _ ?fin]) (simp add: signal_listener_eq)
qed

lemma signal_listener_exit:
  assumes "(t, Process_exit k) \<in> set (signal_listener w hs s signal)"
  shows "k = None \<and>
         (\<exists>xs t0. signal_listener w hs s signal = xs @ [(t, Close_callback s), (t, Process_exit None)] \<and>
                  (t0, Server_close s) \<in> set xs \<and> t0 \<le> t)"
proof -
  let ?head = "(0, Console_log (''Received '' @ signal)) #
     map (Pair 0 \<circ> (\<lambda>l. Call (lid l) signal)) (matching signal hs)"
  let ?p = "snd (callCustomErrorHandler hs signal)"
  have eq: "signal_listener w hs s signal = ?head @ await ?p (\<lambda>t. server_close w s (Exits None) t)"
    by (simp add: signal_listener_eq)
  from assms have "(t, Process_exit k) \<in> set (await ?p (\<lambda>t. server_close w s (Exits None) t))"
    unfolding eq by auto
  from await_member [OF this] obtain t0 where
    p: "?p = Fulfilled t0" and mem: "(t, Process_exit k) \<in> set (server_close w s (Exits None) t0)"
    by blast
  from mem obtain d where d: "closes_after w s = Some d" and t: "t = t0 + d" and k: "k = None"
    by (cases "closes_after w s") (simp_all add: server_close_def)
  have "signal_listener w hs s signal =
          (?head @ [(t0, Server_close s)]) @ [(t, Close_callback s), (t, Process_exit None)]"
    unfolding eq p by (simp add: server_close_def d t)
  moreover have "(t0, Server_close s) \<in> set (?head @ [(t0, Server_close s)])"
    by simp
  moreover have "t0 \<le> t"
    using t by simp
  ultimately show ?thesis
    using k by blast
qed

lemma signal_listener_closes:
  assumes "snd (callCustomErrorHandler hs signal) = Fulfilled t"
  shows "(t, Server_close s) \<in> set (signal_listener w hs s signal) \<and>
         (\<forall>d. closes_after w s = Some d \<longrightarrow>
              (t + d, Process_exit None) \<in> set (signal_listener w hs s signal))"
  using assms by (simp add: signal_listener_eq server_close_def)

section \<open>Lemmas on the process\<close>

lemma customeErrorHandlers_on [simp]:
  "customeErrorHandlers (on error l p) = customeErrorHandlers p @ [(error, l)]"
  by (simp add: on_def)

lemma listeners_on [simp]: "listeners (on error l p) = listeners p"
  by (simp add: on_def)

lemma customeErrorHandlers_register [simp]:
  "customeErrorHandlers (register s p) = customeErrorHandlers p"
  by (simp add: register_def)

lemma listeners_register: "listeners (register s p) = listeners p @ five s"
  by (simp add: register_def five_def)

lemma reachable_five:
  "reachable p \<Longrightarrow> (n, pl) \<in> set (listeners p) \<Longrightarrow> \<exists>s. (n, pl) \<in> set (five s)"
proof (induction arbitrary: n pl rule: reachable.induct)
  case start
  then show ?case by (simp add: initial_def)
next
  case (registered p s)
  have "listeners (register s p) = listeners p @ five s"
    by (simp add: register_def five_def)
  with registered.prems have "(n, pl) \<in> set (listeners p) \<or> (n, pl) \<in> set (five s)"
    by simp
  with registered.IH show ?case by blast
next
  case (added p error l)
  then show ?case by (simp add: on_def)
qed

lemma five_dispatch_name: "(n, pl) \<in> set (five s) \<Longrightarrow> dispatch_name pl = n"
  by (auto simp add: five_def)

lemma five_crash_listener:
  assumes "(n, pl) \<in> set (five s)" and "n = ''uncaughtException'' \<or> n = ''unhandledRejection''"
  shows "pl = Uncaught_exception \<or> pl = Unhandled_rejection"
  using assms by (auto simp add: five_def)

lemma length_filter_five:
  "length (filter (\<lambda>(n, l). n = event_name c) (five s)) = 1"
  by (cases c) (simp_all add: five_def)

lemma filter_five:
  "map snd (filter (\<lambda>(n, l). n = event_name c) (five s)) =
     [case c of UncaughtException e \<Rightarrow> Uncaught_exception
      | UnhandledRejection e \<Rightarrow> Unhandled_rejection
      | ProcessExit k \<Rightarrow> Exit
      | SIGINT \<Rightarrow> Signal s ''SIGINT''
      | SIGTERM \<Rightarrow> Signal s ''SIGTERM'']"
  by (cases c) (simp_all add: five_def)

lemma reachable_attached:
  "reachable p \<Longrightarrow> (n, pl) \<in> set (listeners p) \<Longrightarrow> dispatch_name pl = n"
  using reachable_five five_dispatch_name by blast

lemma emit_member:
  "tr \<in> set (emit w p name a) \<Longrightarrow>
     \<exists>pl. (name, pl) \<in> set (listeners p) \<and> tr = call_listener w (customeErrorHandlers p) pl a"
  by (auto simp add: emit_def)

lemma calls_emit:
  assumes "reachable p" and "tr \<in> set (emit w p name a)"
  shows "calls tr = map (\<lambda>l. (lid l, name)) (matching name (customeErrorHandlers p))"
proof -
  from emit_member [OF assms(2)] obtain pl where
    pl: "(name, pl) \<in> set (listeners p)" and tr: "tr = call_listener w (customeErrorHandlers p) pl a"
    by blast
  from reachable_attached [OF assms(1) pl] have "dispatch_name pl = name" .
  with tr calls_call_listener [of w "customeErrorHandlers p" pl a] show ?thesis by simp
qed

lemma emit_on_other:
  assumes "reachable p" and "n \<noteq> name"
  shows "emit w (on n l p) name a = emit w p name a"
proof -
  have "\<And>pl. (name, pl) \<in> set (listeners p) \<Longrightarrow>
          call_listener w (customeErrorHandlers p @ [(n, l)]) pl a =
          call_listener w (customeErrorHandlers p) pl a"
    using reachable_attached [OF assms(1)] assms(2) call_listener_other by metis
  then show ?thesis
    by (auto simp add: emit_def)
qed

lemma emit_run_irrelevant:
  assumes "reachable p"
  shows "emit w (p\<lparr>customeErrorHandlers :=
                   map (\<lambda>(n, l). (n, if n = name then l else l\<lparr>run := r\<rparr>)) (customeErrorHandlers p)\<rparr>)
           name a = emit w p name a"
proof -
  let ?hs' = "map (\<lambda>(n, l). (n, if n = name then l else l\<lparr>run := r\<rparr>)) (customeErrorHandlers p)"
  have "call_listener w ?hs' pl a = call_listener w (customeErrorHandlers p) pl a"
    if "(name, pl) \<in> set (listeners p)" for pl
  proof (rule call_listener_cong)
    from reachable_attached [OF assms that] have "dispatch_name pl = name" .
    then show "callCustomErrorHandler ?hs' (dispatch_name pl) =
               callCustomErrorHandler (customeErrorHandlers p) (dispatch_name pl)"
      by (simp add: callCustomErrorHandler_def errorPromises_run_irrelevant)
  qed
  then show ?thesis
    by (auto simp add: emit_def)
qed

lemma reachable_foldl_on:
  "reachable p \<Longrightarrow> reachable (foldl (\<lambda>q (e, l). on e l q) p regs)"
  by (induction regs arbitrary: p) (auto intro: reachable.added)

lemma customeErrorHandlers_foldl_on:
  "customeErrorHandlers (foldl (\<lambda>q (e, l). on e l q) p regs) = customeErrorHandlers p @ regs"
  by (induction regs arbitrary: p) auto

lemma listeners_foldl_on:
  "listeners (foldl (\<lambda>q (e, l). on e l q) p regs) = listeners p"
  by (induction regs arbitrary: p) auto

lemma concat_replicate_snoc:
  "concat (replicate n xs) @ xs = xs @ concat (replicate n xs)"
  by (induction n) simp_all

lemma listeners_funpow_register:
  "listeners ((register s ^^ n) p) = listeners p @ concat (replicate n (five s))"
  by (induction n) (simp_all add: listeners_register concat_replicate_snoc)

lemma customeErrorHandlers_funpow_register [simp]:
  "customeErrorHandlers ((register s ^^ n) p) = customeErrorHandlers p"
  by (induction n) simp_all

lemma filter_concat_replicate:
  "filter P (concat (replicate n xs)) = concat (replicate n (filter P xs))"
  by (induction n) simp_all

lemma map_concat_replicate:
  "map f (concat (replicate n xs)) = concat (replicate n (map f xs))"
  by (induction n) simp_all

lemma emit_funpow_register:
  assumes "listeners p = []"
  shows "emit w ((register s ^^ n) p) name a = concat (replicate n (emit w (register s p) name a))"
  using assms
  by (simp add: emit_def listeners_funpow_register listeners_register
        filter_concat_replicate map_concat_replicate)

lemma trigger_once:
  assumes "listeners p = listeners (register s initial)"
  shows "trigger w p (UncaughtException e) = [uncaughtException_listener w (customeErrorHandlers p) e]"
    and "trigger w p (UnhandledRejection e) = [unhandledRejection_listener w (customeErrorHandlers p) e]"
    and "trigger w p (ProcessExit k) = [exit_listener w (customeErrorHandlers p) (Number k)]"
    and "trigger w p SIGINT = [signal_listener w (customeErrorHandlers p) s ''SIGINT'']"
    and "trigger w p SIGTERM = [signal_listener w (customeErrorHandlers p) s ''SIGTERM'']"
  using assms by (simp_all add: trigger_def emit_def register_def initial_def)

lemma trigger_once_listener:
  assumes "listeners p = listeners (register s initial)"
  shows "\<exists>pl. dispatch_name pl = event_name c \<and>
           trigger w p c = [call_listener w (customeErrorHandlers p) pl (event_arg c)]"
proof -
  let ?pl = "case c of UncaughtException e \<Rightarrow> Uncaught_exception
      | UnhandledRejection e \<Rightarrow> Unhandled_rejection
      | ProcessExit k \<Rightarrow> Exit
      | SIGINT \<Rightarrow> Signal s ''SIGINT''
      | SIGTERM \<Rightarrow> Signal s ''SIGTERM''"
  have "dispatch_name ?pl = event_name c"
    by (cases c) simp_all
  moreover have "trigger w p c = [call_listener w (customeErrorHandlers p) ?pl (event_arg c)]"
    using assms by (simp add: trigger_def emit_def listeners_register initial_def filter_five)
  ultimately show ?thesis by blast
qed

lemma invocations_map:
  "map snd (filter (\<lambda>(i, s). i = h) (map (\<lambda>l. (lid l, name)) ls)) =
     replicate (length (filter (\<lambda>l. lid l = h) ls)) name"
  by (induction ls) simp_all

lemma filter_lid_empty: "h \<notin> lid ` set ls \<Longrightarrow> filter (\<lambda>l. lid l = h) ls = []"
  by (induction ls) auto

lemma invocations_fresh:
  assumes "reachable p" and "tr \<in> set (emit w p name a)"
    and "lid h \<notin> lid ` set (matching name (customeErrorHandlers p))"
  shows "invocations (lid h) tr = []"
  using calls_emit [OF assms(1,2)] assms(3)
  by (simp add: invocations_def invocations_map filter_lid_empty)

lemma reachable_listeners:
  "reachable p \<Longrightarrow> \<exists>ss. listeners p = concat (map five ss)"
proof (induction rule: reachable.induct)
  case start
  have "listeners initial = concat (map five [])"
    by (simp add: initial_def)
  then show ?case ..
next
  case (registered p s)
  from registered.IH obtain ss where "listeners p = concat (map five ss)" ..
  then have "listeners (register s p) = concat (map five (ss @ [s]))"
    by (simp add: listeners_register)
  then show ?case ..
next
  case (added p error l)
  then show ?case by simp
qed

lemma filter_five_nonempty:
  "filter (\<lambda>(n, l). n = event_name c) (five s) \<noteq> []"
  using length_filter_five [of c s] by auto

lemma trigger_nonempty:
  assumes "reachable p" and "listeners p \<noteq> []"
  shows "trigger w p c \<noteq> []"
proof -
  from reachable_listeners [OF assms(1)] obtain ss where ss: "listeners p = concat (map five ss)" ..
  with assms(2) obtain s rest where "ss = s # rest"
    by (cases ss) auto
  with ss filter_five_nonempty [of c s] show ?thesis
    by (simp add: trigger_def emit_def)
qed

lemma crash_listener_of_name:
  assumes "reachable p"
    and "c = UncaughtException e \<or> c = UnhandledRejection e"
    and "tr \<in> set (trigger w p c)"
  shows "\<exists>pl. (pl = Uncaught_exception \<or> pl = Unhandled_rejection) \<and>
              dispatch_name pl = event_name c \<and>
              tr = call_listener w (customeErrorHandlers p) pl e"
proof -
  from assms(3) emit_member [of tr w p "event_name c" "event_arg c"] obtain pl where
    pl: "(event_name c, pl) \<in> set (listeners p)" and
    tr: "tr = call_listener w (customeErrorHandlers p) pl (event_arg c)"
    by (auto simp add: trigger_def)
  from reachable_five [OF assms(1) pl] obtain s where five: "(event_name c, pl) \<in> set (five s)" ..
  from five_crash_listener [OF five] assms(2)
  have "pl = Uncaught_exception \<or> pl = Unhandled_rejection"
    by auto
  moreover from five_dispatch_name [OF five] have "dispatch_name pl = event_name c" .
  moreover from assms(2) tr have "tr = call_listener w (customeErrorHandlers p) pl e"
    by auto
  ultimately show ?thesis by blast
qed

lemma crash_listener_callback:
  assumes "pl = Uncaught_exception \<or> pl = Unhandled_rejection"
    and "x \<in> set (crash_responses (call_listener w hs pl a))"
  shows "callback (snd x) = Some killInstance"
  using assms
  by (auto simp add: uncaughtException_listener_eq unhandledRejection_listener_eq
        dest!: crash_responses_await_member)

lemma crash_listener_responses:
  assumes "pl = Uncaught_exception \<or> pl = Unhandled_rejection"
    and "snd (callCustomErrorHandler hs (dispatch_name pl)) = Fulfilled t"
  shows "crash_responses (call_listener w hs pl a) =
           [(t, \<lparr>err = a, res = Response_latest w t,
                 callback = Some killInstance, silent = None\<rparr>)]"
  using assms
  by (auto simp add: uncaughtException_listener_eq unhandledRejection_listener_eq)

section \<open>The claims\<close>

subsection \<open>C1: a registered handler is called once, with the name of the condition\<close>

text \<open>
  Claim C1, as amended. Let \<open>register\<close> have been called once. A function \<open>h\<close> that is
  registered with \<open>on\<close> under the name with which a condition is delivered, and that
  was not registered under that name before, is called exactly once when the condition is
  triggered, and its argument is that name. For the exit of the process that name is
  \<open>exit\<close>: it is the string the listener of line 48 passes on.
\<close>

theorem on_then_trigger_invokes_once:
  assumes "listeners p = listeners (register s initial)"
    and "lid h \<notin> lid ` set (matching (event_name c) (customeErrorHandlers p))"
  shows "map (invocations (lid h)) (trigger w (on (event_name c) h p) c) = [[event_name c]]"
proof -
  from assms(1) have "listeners (on (event_name c) h p) = listeners (register s initial)"
    by simp
  from trigger_once_listener [OF this, of c w] obtain pl where
    pl: "dispatch_name pl = event_name c" and
    tr: "trigger w (on (event_name c) h p) c =
           [call_listener w (customeErrorHandlers (on (event_name c) h p)) pl (event_arg c)]"
    by blast
  have "invocations (lid h) (call_listener w (customeErrorHandlers (on (event_name c) h p)) pl (event_arg c))
          = [event_name c]"
    using assms(2) pl
    by (simp add: invocations_def calls_call_listener matching_append matching_Cons
          invocations_map filter_lid_empty)
  with tr show ?thesis by simp
qed

theorem on_then_trigger_invokes_once_witness:
  "listeners (on ''SIGINT'' \<lparr>lid = 2, run = \<lambda>signal. Throws\<rparr> (register 0 initial)) =
     listeners (register 0 initial) \<and>
   1 \<notin> lid ` set (matching ''exit''
      (customeErrorHandlers (on ''SIGINT'' \<lparr>lid = 2, run = \<lambda>signal. Throws\<rparr> (register 0 initial)))) \<and>
   map (invocations 1)
     (trigger \<lparr>Response_latest = \<lambda>t. 7, closes_after = \<lambda>s. Some 2,
       exponent_form = \<lambda>n. []\<rparr>
        (on ''exit'' \<lparr>lid = 1, run = \<lambda>signal. Resolves 3\<rparr>
           (on ''SIGINT'' \<lparr>lid = 2, run = \<lambda>signal. Throws\<rparr> (register 0 initial)))
        (ProcessExit 1)) = [[''exit'']]"
proof -
  let ?p = "on ''SIGINT'' \<lparr>lid = 2, run = \<lambda>signal. Throws\<rparr> (register 0 initial)"
  let ?h = "\<lparr>lid = 1, run = \<lambda>signal. Resolves 3\<rparr>"
  have once: "listeners ?p = listeners (register 0 initial)"
    by simp
  have fresh: "lid ?h \<notin> lid ` set (matching (event_name (ProcessExit 1)) (customeErrorHandlers ?p))"
    by (simp add: matching_def register_def initial_def)
  from on_then_trigger_invokes_once [OF once fresh] once fresh show ?thesis
    by simp
qed

text \<open>
  Claim C1 as it is written fails for the fifth condition. A function registered under
  the name \<open>processExit\<close> is not called when the process exits, with any exit code:
  here it is called zero times, where the claim says once.
\<close>

theorem processExit_name_never_dispatched:
  "map (invocations 7)
     (trigger \<lparr>Response_latest = \<lambda>t. 0, closes_after = \<lambda>s. Some 0,
       exponent_form = \<lambda>n. []\<rparr>
        (on ''processExit'' \<lparr>lid = 7, run = \<lambda>signal. Returns\<rparr> (register 0 initial))
        (ProcessExit 0)) = [[]]"
  by (simp add: trigger_def emit_def register_def on_def initial_def exit_listener_def
        abandoned_def callCustomErrorHandler_def errorPromises_def invocations_def calls_def)

subsection \<open>C2: dispatch is by equality of names\<close>

text \<open>
  Claim C2. Let \<open>c\<close> and \<open>d\<close> be conditions with different names, and let \<open>h\<close> be
  registered under the name of \<open>c\<close>, and not under the name of \<open>d\<close>. When \<open>d\<close> is
  triggered, the process does what it does without that registration, \<open>h\<close> is not
  called, and the calls made are those of the entries under the name of \<open>d\<close>. An entry
  under another name is skipped without its function being run: putting any behaviour
  \<open>r\<close> in the place of every such function changes nothing.
\<close>

theorem other_condition_never_invokes:
  assumes "reachable p"
    and "event_name c \<noteq> event_name d"
    and "lid h \<notin> lid ` set (matching (event_name d) (customeErrorHandlers p))"
  shows "trigger w (on (event_name c) h p) d = trigger w p d \<and>
         (\<forall>tr \<in> set (trigger w (on (event_name c) h p) d).
            invocations (lid h) tr = [] \<and>
            calls tr = map (\<lambda>l. (lid l, event_name d))
                         (matching (event_name d) (customeErrorHandlers p))) \<and>
         trigger w (p\<lparr>customeErrorHandlers :=
                        map (\<lambda>(n, l). (n, if n = event_name d then l else l\<lparr>run := r\<rparr>))
                          (customeErrorHandlers p)\<rparr>) d = trigger w p d"
proof -
  have same: "trigger w (on (event_name c) h p) d = trigger w p d"
    using emit_on_other [OF assms(1,2)] by (simp add: trigger_def)
  have "invocations (lid h) tr = [] \<and>
        calls tr = map (\<lambda>l. (lid l, event_name d)) (matching (event_name d) (customeErrorHandlers p))"
    if "tr \<in> set (trigger w p d)" for tr
    using that invocations_fresh [OF assms(1) _ assms(3)] calls_emit [OF assms(1)]
    by (simp add: trigger_def)
  moreover have "trigger w (p\<lparr>customeErrorHandlers :=
                        map (\<lambda>(n, l). (n, if n = event_name d then l else l\<lparr>run := r\<rparr>))
                          (customeErrorHandlers p)\<rparr>) d = trigger w p d"
    using emit_run_irrelevant [OF assms(1)] by (simp add: trigger_def)
  ultimately show ?thesis
    using same by simp
qed

theorem other_condition_never_invokes_witness:
  "reachable (on ''SIGTERM'' \<lparr>lid = 2, run = \<lambda>signal. Returns\<rparr> (register 0 initial)) \<and>
   event_name SIGINT \<noteq> event_name SIGTERM \<and>
   1 \<notin> lid ` set (matching ''SIGTERM''
      (customeErrorHandlers (on ''SIGTERM'' \<lparr>lid = 2, run = \<lambda>signal. Returns\<rparr> (register 0 initial)))) \<and>
   trigger \<lparr>Response_latest = \<lambda>t. 7, closes_after = \<lambda>s. Some 2,
       exponent_form = \<lambda>n. []\<rparr>
     (on ''SIGINT'' \<lparr>lid = 1, run = \<lambda>signal. Throws\<rparr>
        (on ''SIGTERM'' \<lparr>lid = 2, run = \<lambda>signal. Returns\<rparr> (register 0 initial))) SIGTERM =
   trigger \<lparr>Response_latest = \<lambda>t. 7, closes_after = \<lambda>s. Some 2,
       exponent_form = \<lambda>n. []\<rparr>
     (on ''SIGTERM'' \<lparr>lid = 2, run = \<lambda>signal. Returns\<rparr> (register 0 initial)) SIGTERM \<and>
   map calls
     (trigger \<lparr>Response_latest = \<lambda>t. 7, closes_after = \<lambda>s. Some 2,
       exponent_form = \<lambda>n. []\<rparr>
        (on ''SIGINT'' \<lparr>lid = 1, run = \<lambda>signal. Throws\<rparr>
           (on ''SIGTERM'' \<lparr>lid = 2, run = \<lambda>signal. Returns\<rparr> (register 0 initial))) SIGTERM) =
   [[(2, ''SIGTERM'')]]"
proof -
  let ?p = "on ''SIGTERM'' \<lparr>lid = 2, run = \<lambda>signal. Returns\<rparr> (register 0 initial)"
  let ?h = "\<lparr>lid = 1, run = \<lambda>signal. Throws\<rparr>"
  let ?w = "\<lparr>Response_latest = \<lambda>t. 7, closes_after = \<lambda>s. Some 2,
       exponent_form = \<lambda>n. []\<rparr>"
  have reach: "reachable ?p"
    by (intro reachable.intros)
  have names: "event_name SIGINT \<noteq> event_name SIGTERM"
    by simp
  have fresh: "lid ?h \<notin> lid ` set (matching (event_name SIGTERM) (customeErrorHandlers ?p))"
    by (simp add: matching_def register_def initial_def)
  note inst = other_condition_never_invokes [OF reach names fresh, of ?w]
  from inst have same: "trigger ?w (on ''SIGINT'' ?h ?p) SIGTERM = trigger ?w ?p SIGTERM"
    by simp
  have "map calls (trigger ?w ?p SIGTERM) = [[(2, ''SIGTERM'')]]"
    by (simp add: trigger_def emit_def register_def on_def initial_def signal_listener_def
          callCustomErrorHandler_def errorPromises_def await_def server_close_def)
  with same reach names fresh show ?thesis
    by simp
qed

subsection \<open>C3: the order of a reaction\<close>

text \<open>
  Claim C3. In every trace of a triggered condition the log, the calls of the custom
  handlers and the final action stand in this order. Every condition but the exit of the
  process starts with its log. When an event of the final action happens in some turn,
  every promise of a matching custom handler has fulfilled in that turn or before it.
\<close>

theorem reaction_chain_ordered:
  assumes "reachable p" and "tr \<in> set (trigger w p c)"
  shows "happens_before is_log is_call tr \<and>
         happens_before is_call is_finalize tr \<and>
         happens_before is_log is_finalize tr \<and>
         ((\<forall>k. c \<noteq> ProcessExit k) \<longrightarrow> tr \<noteq> [] \<and> is_log (snd (hd tr))) \<and>
         (\<forall>x \<in> set tr. is_finalize (snd x) \<longrightarrow>
            (\<forall>l \<in> set (matching (event_name c) (customeErrorHandlers p)).
               \<exists>n\<le>fst x. awaited (run l (event_name c)) = Fulfilled n))"
proof -
  let ?hs = "customeErrorHandlers p"
  let ?name = "event_name c"
  from assms(2) emit_member [of tr w p ?name "event_arg c"] obtain pl where
    pl: "(?name, pl) \<in> set (listeners p)" and tr: "tr = call_listener w ?hs pl (event_arg c)"
    by (auto simp add: trigger_def)
  from reachable_attached [OF assms(1) pl] have name: "dispatch_name pl = ?name" .
  let ?cs = "map (Pair 0 \<circ> (\<lambda>l. Call (lid l) ?name)) (matching ?name ?hs)"
  from call_listener_shape [of w ?hs pl "event_arg c"] name tr obtain pre fin where
    shape: "tr = pre @ ?cs @ fin" and
    pre: "\<forall>x \<in> set pre. is_log (snd x)" and
    pre_ne: "pl \<noteq> Exit \<longrightarrow> pre \<noteq> []" and
    fin: "\<forall>x \<in> set fin. is_finalize (snd x) \<and>
            (\<exists>t\<le>fst x. snd (callCustomErrorHandler ?hs ?name) = Fulfilled t)"
    by auto
  have pre_only: "\<forall>x \<in> set pre. \<not> is_call (snd x) \<and> \<not> is_finalize (snd x)"
    using pre kinds_disjoint(1) by blast
  have cs_only: "\<forall>x \<in> set ?cs. \<not> is_log (snd x) \<and> \<not> is_finalize (snd x)"
    by simp
  have fin_only: "\<forall>x \<in> set fin. \<not> is_log (snd x) \<and> \<not> is_call (snd x)"
    using fin kinds_disjoint(3) by blast
  have 1: "happens_before is_log is_call tr"
    unfolding shape
  proof (rule happens_before_append)
    show "\<forall>x \<in> set pre. \<not> is_call (snd x)"
      using pre_only by blast
    show "\<forall>y \<in> set (?cs @ fin). \<not> is_log (snd y)"
      using cs_only fin_only by (simp add: ball_Un)
  qed
  have 2: "happens_before is_call is_finalize tr"
    unfolding shape append_assoc [symmetric]
  proof (rule happens_before_append)
    show "\<forall>x \<in> set (pre @ ?cs). \<not> is_finalize (snd x)"
      using pre_only cs_only by (simp add: ball_Un)
    show "\<forall>y \<in> set fin. \<not> is_call (snd y)"
      using fin_only by blast
  qed
  have 3: "happens_before is_log is_finalize tr"
    unfolding shape append_assoc [symmetric]
  proof (rule happens_before_append)
    show "\<forall>x \<in> set (pre @ ?cs). \<not> is_finalize (snd x)"
      using pre_only cs_only by (simp add: ball_Un)
    show "\<forall>y \<in> set fin. \<not> is_log (snd y)"
      using fin_only by blast
  qed
  have 4: "tr \<noteq> [] \<and> is_log (snd (hd tr))" if "\<forall>k. c \<noteq> ProcessExit k"
  proof -
    from that name have "pl \<noteq> Exit"
      by (cases c) auto
    with pre_ne have "pre \<noteq> []" by simp
    with pre shape show ?thesis by (cases pre) simp_all
  qed
  have 5: "\<exists>n\<le>fst x. awaited (run l ?name) = Fulfilled n"
    if x: "x \<in> set tr" "is_finalize (snd x)" and l: "l \<in> set (matching ?name ?hs)" for x l
  proof -
    from x(1) have "x \<in> set pre \<or> x \<in> set ?cs \<or> x \<in> set fin"
      unfolding shape by simp
    with x(2) pre_only cs_only have "x \<in> set fin"
      by blast
    with fin obtain t where t: "t \<le> fst x" "snd (callCustomErrorHandler ?hs ?name) = Fulfilled t"
      by blast
    from callCustomErrorHandler_settled [OF t(2) l] t(1) show ?thesis
      by (meson le_trans)
  qed
  from 1 2 3 4 5 show ?thesis by blast
qed

theorem reaction_chain_ordered_witness:
  "reachable (on ''SIGTERM'' \<lparr>lid = 1, run = \<lambda>signal. Resolves 3\<rparr> (register 0 initial)) \<and>
   [(0, Console_log ''Received SIGTERM''), (0, Call 1 ''SIGTERM''),
    (3, Server_close 0), (5, Close_callback 0), (5, Process_exit None)]
     \<in> set (trigger \<lparr>Response_latest = \<lambda>t. 7, closes_after = \<lambda>s. Some 2,
       exponent_form = \<lambda>n. []\<rparr>
         (on ''SIGTERM'' \<lparr>lid = 1, run = \<lambda>signal. Resolves 3\<rparr> (register 0 initial)) SIGTERM) \<and>
   happens_before is_log is_call
     [(0, Console_log ''Received SIGTERM''), (0, Call 1 ''SIGTERM''),
      (3, Server_close 0), (5, Close_callback 0), (5, Process_exit None)] \<and>
   happens_before is_call is_finalize
     [(0, Console_log ''Received SIGTERM''), (0, Call 1 ''SIGTERM''),
      (3, Server_close 0), (5, Close_callback 0), (5, Process_exit None)] \<and>
   happens_before is_log is_finalize
     [(0, Console_log ''Received SIGTERM''), (0, Call 1 ''SIGTERM''),
      (3, Server_close 0), (5, Close_callback 0), (5, Process_exit None)] \<and>
   (\<exists>n\<le>3. awaited (run \<lparr>lid = 1, run = \<lambda>signal. Resolves 3\<rparr> ''SIGTERM'') = Fulfilled n)"
proof -
  let ?h = "\<lparr>lid = 1, run = \<lambda>signal. Resolves 3\<rparr>"
  let ?p = "on ''SIGTERM'' ?h (register 0 initial)"
  let ?w = "\<lparr>Response_latest = \<lambda>t. 7, closes_after = \<lambda>s. Some 2,
       exponent_form = \<lambda>n. []\<rparr>"
  let ?tr = "[(0, Console_log ''Received SIGTERM''), (0, Call 1 ''SIGTERM''),
      (3, Server_close 0), (5, Close_callback 0), (5, Process_exit None)] :: timed list"
  have reach: "reachable ?p"
    by (intro reachable.intros)
  have "trigger ?w ?p SIGTERM = [?tr]"
    by (simp add: trigger_def emit_def register_def on_def initial_def signal_listener_def
          callCustomErrorHandler_def errorPromises_def await_def server_close_def)
  then have tr: "?tr \<in> set (trigger ?w ?p SIGTERM)"
    by simp
  note inst = reaction_chain_ordered [OF reach tr]
  have close: "(3, Server_close 0) \<in> set ?tr" and final: "is_finalize (snd (3::nat, Server_close 0))"
    by simp_all
  have h: "?h \<in> set (matching (event_name SIGTERM) (customeErrorHandlers ?p))"
    by (simp add: matching_def register_def initial_def)
  from inst close final h
  have "\<exists>n\<le>fst (3::nat, Server_close 0). awaited (run ?h (event_name SIGTERM)) = Fulfilled n"
    by blast
  with inst reach tr show ?thesis
    by simp
qed

subsection \<open>C4: the reaction to an uncaught exception\<close>

text \<open>
  Claim C4, as amended. Let \<open>register\<close> have been called once, for one server, and let
  the promise of every custom handler registered for \<open>uncaughtException\<close> fulfil. Then
  triggering an uncaught exception calls \<open>sendCrashResponse\<close> once, with the thrown
  value, with \<open>Response.latest\<close> as it stands in the turn of the call, and with
  \<open>killInstance\<close> as the callback. That callback exits with code 16, which Node.js
  does not use itself. Exactly one listener is attached under the name of each condition.
\<close>

theorem uncaughtException_sends_crash_response:
  assumes "listeners p = listeners (register s initial)"
    and "\<forall>l \<in> set (matching ''uncaughtException'' (customeErrorHandlers p)).
           \<exists>n. awaited (run l ''uncaughtException'') = Fulfilled n"
  shows "(\<exists>t. map crash_responses (trigger w p (UncaughtException e)) =
                [[(t, \<lparr>err = e, res = Response_latest w t,
                       callback = Some killInstance, silent = None\<rparr>)]]) \<and>
         invoke killInstance = Process_exit (Some 16) \<and>
         \<not> nodejs_exit_code 16 \<and>
         (\<forall>c. length (filter (\<lambda>(n, l). n = event_name c) (listeners p)) = 1)"
proof -
  from callCustomErrorHandler_fulfils [of "''uncaughtException''" "customeErrorHandlers p"] assms(2)
  obtain t where "snd (callCustomErrorHandler (customeErrorHandlers p) ''uncaughtException'') = Fulfilled t"
    by blast
  then have "map crash_responses (trigger w p (UncaughtException e)) =
                [[(t, \<lparr>err = e, res = Response_latest w t,
                       callback = Some killInstance, silent = None\<rparr>)]]"
    by (simp add: trigger_once(1) [OF assms(1)] uncaughtException_listener_eq)
  then have sent: "\<exists>t. map crash_responses (trigger w p (UncaughtException e)) =
                [[(t, \<lparr>err = e, res = Response_latest w t,
                       callback = Some killInstance, silent = None\<rparr>)]]" ..
  have kill: "invoke killInstance = Process_exit (Some 16)"
    by (simp add: killInstance_def)
  have unused: "\<not> nodejs_exit_code 16"
    by (simp add: nodejs_exit_code_def)
  have one: "\<forall>c. length (filter (\<lambda>(n, l). n = event_name c) (listeners p)) = 1"
    using assms(1) length_filter_five [of _ s] by (simp add: listeners_register initial_def)
  from sent kill unused one show ?thesis
    by (intro conjI)
qed

theorem uncaughtException_sends_crash_response_witness:
  "listeners (on ''uncaughtException'' \<lparr>lid = 1, run = \<lambda>signal. Resolves 3\<rparr> (register 0 initial)) =
     listeners (register 0 initial) \<and>
   list_all (\<lambda>l. \<exists>n. awaited (run l ''uncaughtException'') = Fulfilled n)
     (matching ''uncaughtException''
        (customeErrorHandlers
           (on ''uncaughtException'' \<lparr>lid = 1, run = \<lambda>signal. Resolves 3\<rparr> (register 0 initial)))) \<and>
   (\<exists>t. map crash_responses
      (trigger \<lparr>Response_latest = \<lambda>t. t + 40, closes_after = \<lambda>s. Some 2,
       exponent_form = \<lambda>n. []\<rparr>
         (on ''uncaughtException'' \<lparr>lid = 1, run = \<lambda>signal. Resolves 3\<rparr> (register 0 initial))
         (UncaughtException (Error ''boom''))) =
      [[(t, \<lparr>err = Error ''boom'',
             res = Response_latest \<lparr>Response_latest = \<lambda>t. t + 40, closes_after = \<lambda>s. Some 2,
       exponent_form = \<lambda>n. []\<rparr> t,
             callback = Some killInstance, silent = None\<rparr>)]]) \<and>
   invoke killInstance = Process_exit (Some 16) \<and>
   \<not> nodejs_exit_code 16"
proof -
  let ?p = "on ''uncaughtException'' \<lparr>lid = 1, run = \<lambda>signal. Resolves 3\<rparr> (register 0 initial)"
  have once: "listeners ?p = listeners (register 0 initial)"
    by simp
  have ok: "\<forall>l \<in> set (matching ''uncaughtException'' (customeErrorHandlers ?p)).
              \<exists>n. awaited (run l ''uncaughtException'') = Fulfilled n"
    by (simp add: matching_def register_def initial_def)
  let ?w = "\<lparr>Response_latest = \<lambda>t. t + 40, closes_after = \<lambda>s. Some 2,
       exponent_form = \<lambda>n. []\<rparr>"
  from uncaughtException_sends_crash_response [OF once ok, of ?w "Error ''boom''"] once ok
  show ?thesis
    by (simp add: list_all_iff)
qed

text \<open>
  Claim C4 as it is written fails when a custom handler throws or rejects: the await of
  line 37 throws, and line 38 is not reached. Here the handler throws, and no crash
  response is sent for the exception.
\<close>

theorem uncaughtException_handler_throws_no_crash_response:
  "map crash_responses
     (trigger \<lparr>Response_latest = \<lambda>t. 7, closes_after = \<lambda>s. Some 2,
       exponent_form = \<lambda>n. []\<rparr>
        (on ''uncaughtException'' \<lparr>lid = 1, run = \<lambda>signal. Throws\<rparr> (register 0 initial))
        (UncaughtException (Error ''boom''))) = [[]]"
  by (simp add: trigger_def emit_def register_def on_def initial_def
        uncaughtException_listener_def callCustomErrorHandler_def errorPromises_def await_def)

subsection \<open>C5: the reaction to the exit of the process\<close>

text \<open>
  Claim C5 says that the exit of the process with code 0 calls \<open>sendCrashResponse\<close>
  with \<open>silent\<close> true, and with another code calls it with \<open>silent\<close> false and an
  Error that names the code. The listener of lines 47 to 54 is written to do so, but it
  awaits first, and at exit nothing runs after an await. With one call of \<open>register\<close>
  and any registrations, whatever the exit code is, no crash response is sent.
\<close>

theorem exit_never_sends_crash_response:
  "map crash_responses
     (trigger w (foldl (\<lambda>q (e, l). on e l q) (register s initial) regs) (ProcessExit k)) = [[]]"
proof -
  have "listeners (foldl (\<lambda>q (e, l). on e l q) (register s initial) regs) =
          listeners (register s initial)"
    by (simp add: listeners_foldl_on)
  from trigger_once(3) [OF this] show ?thesis
    by (simp add: exit_listener_eq)
qed

theorem exit_never_sends_crash_response_witness:
  "trigger \<lparr>Response_latest = \<lambda>t. 7, closes_after = \<lambda>s. Some 2,
       exponent_form = \<lambda>n. []\<rparr> (register 0 initial) (ProcessExit 0) = [[]] \<and>
   map crash_responses
     (trigger \<lparr>Response_latest = \<lambda>t. 7, closes_after = \<lambda>s. Some 2,
       exponent_form = \<lambda>n. []\<rparr> (register 0 initial) (ProcessExit 0)) = [[]] \<and>
   map crash_responses
     (trigger \<lparr>Response_latest = \<lambda>t. 7, closes_after = \<lambda>s. Some 2,
       exponent_form = \<lambda>n. []\<rparr>
        (on ''exit'' \<lparr>lid = 1, run = \<lambda>signal. Returns\<rparr> (register 0 initial))
        (ProcessExit 137)) = [[]]"
proof -
  let ?w = "\<lparr>Response_latest = \<lambda>t. 7, closes_after = \<lambda>s. Some 2,
       exponent_form = \<lambda>n. []\<rparr>"
  have silence: "trigger ?w (register 0 initial) (ProcessExit 0) = [[]]"
    by (simp add: trigger_def emit_def register_def initial_def exit_listener_def
          abandoned_def callCustomErrorHandler_def errorPromises_def)
  from exit_never_sends_crash_response [of ?w 0 "[]" 0]
  have none: "map crash_responses (trigger ?w (register 0 initial) (ProcessExit 0)) = [[]]"
    by simp
  from exit_never_sends_crash_response
    [of ?w 0 "[(''exit'', \<lparr>lid = 1, run = \<lambda>signal. Returns\<rparr>)]" 137]
  have handler: "map crash_responses
     (trigger ?w (on ''exit'' \<lparr>lid = 1, run = \<lambda>signal. Returns\<rparr> (register 0 initial))
        (ProcessExit 137)) = [[]]"
    by simp
  from silence none handler show ?thesis
    by (intro conjI)
qed

subsection \<open>C6: the reaction to SIGINT and SIGTERM\<close>

text \<open>
  Claim C6, as amended. Let \<open>register\<close> have been called once, for the server \<open>s\<close>.
  The listener of SIGINT or SIGTERM never calls \<open>sendCrashResponse\<close>. When it exits the
  process it gives no exit code, and the exit is the last event, right after the server
  has called the function given to \<open>close\<close>, which follows the call of \<open>close\<close>.
  When the promise of every custom handler registered for the signal fulfils, the listener
  calls \<open>server.close\<close>, and it exits the process if the server finishes closing.
\<close>

theorem signal_closes_then_exits:
  assumes "listeners p = listeners (register s initial)"
    and "c = SIGINT \<or> c = SIGTERM"
    and "tr \<in> set (trigger w p c)"
  shows "crash_responses tr = [] \<and>
         (\<forall>t k. (t, Process_exit k) \<in> set tr \<longrightarrow>
            k = None \<and>
            (\<exists>xs t0. tr = xs @ [(t, Close_callback s), (t, Process_exit None)] \<and>
                     (t0, Server_close s) \<in> set xs \<and> t0 \<le> t)) \<and>
         ((\<forall>l \<in> set (matching (event_name c) (customeErrorHandlers p)).
             \<exists>n. awaited (run l (event_name c)) = Fulfilled n) \<longrightarrow>
          (\<exists>t. (t, Server_close s) \<in> set tr \<and>
               (\<forall>d. closes_after w s = Some d \<longrightarrow> (t + d, Process_exit None) \<in> set tr)))"
proof -
  let ?hs = "customeErrorHandlers p"
  from assms(2,3) trigger_once(4,5) [OF assms(1)]
  have tr: "tr = signal_listener w ?hs s (event_name c)"
    by auto
  have 1: "crash_responses tr = []"
    unfolding tr signal_listener_eq
    by (cases "snd (callCustomErrorHandler ?hs (event_name c))") (simp_all add: await_def)
  have 2: "\<forall>t k. (t, Process_exit k) \<in> set tr \<longrightarrow>
            k = None \<and>
            (\<exists>xs t0. tr = xs @ [(t, Close_callback s), (t, Process_exit None)] \<and>
                     (t0, Server_close s) \<in> set xs \<and> t0 \<le> t)"
    unfolding tr using signal_listener_exit by blast
  have 3: "\<exists>t. (t, Server_close s) \<in> set tr \<and>
               (\<forall>d. closes_after w s = Some d \<longrightarrow> (t + d, Process_exit None) \<in> set tr)"
    if "\<forall>l \<in> set (matching (event_name c) ?hs). \<exists>n. awaited (run l (event_name c)) = Fulfilled n"
  proof -
    from callCustomErrorHandler_fulfils [of "event_name c" ?hs] that
    obtain t where "snd (callCustomErrorHandler ?hs (event_name c)) = Fulfilled t"
      by blast
    from signal_listener_closes [OF this, of s w] show ?thesis
      unfolding tr by blast
  qed
  from 1 2 3 show ?thesis by blast
qed

theorem signal_closes_then_exits_witness:
  "listeners (on ''SIGINT'' \<lparr>lid = 1, run = \<lambda>signal. Resolves 3\<rparr> (register 4 initial)) =
     listeners (register 4 initial) \<and>
   [(0, Console_log ''Received SIGINT''), (0, Call 1 ''SIGINT''),
    (3, Server_close 4), (5, Close_callback 4), (5, Process_exit None)]
     \<in> set (trigger \<lparr>Response_latest = \<lambda>t. 7, closes_after = \<lambda>s. Some 2,
       exponent_form = \<lambda>n. []\<rparr>
         (on ''SIGINT'' \<lparr>lid = 1, run = \<lambda>signal. Resolves 3\<rparr> (register 4 initial)) SIGINT) \<and>
   crash_responses
     [(0, Console_log ''Received SIGINT''), (0, Call 1 ''SIGINT''),
      (3, Server_close 4), (5, Close_callback 4), (5, Process_exit None)] = [] \<and>
   (\<exists>xs t0.
      [(0::nat, Console_log ''Received SIGINT''), (0, Call 1 ''SIGINT''),
       (3, Server_close 4), (5, Close_callback 4), (5, Process_exit None)] =
      xs @ [(5, Close_callback 4), (5, Process_exit None)] \<and>
      (t0, Server_close 4) \<in> set xs \<and> t0 \<le> 5)"
proof -
  let ?h = "\<lparr>lid = 1, run = \<lambda>signal. Resolves 3\<rparr>"
  let ?p = "on ''SIGINT'' ?h (register 4 initial)"
  let ?w = "\<lparr>Response_latest = \<lambda>t. 7, closes_after = \<lambda>s. Some 2,
       exponent_form = \<lambda>n. []\<rparr>"
  let ?tr = "[(0, Console_log ''Received SIGINT''), (0, Call 1 ''SIGINT''),
      (3, Server_close 4), (5, Close_callback 4), (5, Process_exit None)] :: timed list"
  have once: "listeners ?p = listeners (register 4 initial)"
    by simp
  have "trigger ?w ?p SIGINT = [?tr]"
    by (simp add: trigger_def emit_def register_def on_def initial_def signal_listener_def
          callCustomErrorHandler_def errorPromises_def await_def server_close_def)
  then have tr: "?tr \<in> set (trigger ?w ?p SIGINT)"
    by simp
  have sig: "SIGINT = SIGINT \<or> SIGINT = SIGTERM"
    by simp
  note inst = signal_closes_then_exits [OF once sig tr]
  have "(5::nat, Process_exit None) \<in> set ?tr"
    by simp
  with inst have "\<exists>xs t0. ?tr = xs @ [(5, Close_callback 4), (5, Process_exit None)] \<and>
      (t0, Server_close 4) \<in> set xs \<and> t0 \<le> 5"
    by blast
  with inst once tr show ?thesis
    by simp
qed

text \<open>
  Claim C6 as it is written fails when a custom handler for the signal throws or rejects:
  the await of line 59 throws, and \<open>server.close\<close> of line 60 is not called. Here the
  handler throws, and the trace ends with its call.
\<close>

theorem signal_handler_throws_no_close:
  "trigger \<lparr>Response_latest = \<lambda>t. 7, closes_after = \<lambda>s. Some 2,
       exponent_form = \<lambda>n. []\<rparr>
        (on ''SIGINT'' \<lparr>lid = 1, run = \<lambda>signal. Throws\<rparr> (register 0 initial))
        SIGINT = [[(0, Console_log ''Received SIGINT''), (0, Call 1 ''SIGINT'')]]"
  by (simp add: trigger_def emit_def register_def on_def initial_def
        signal_listener_def callCustomErrorHandler_def errorPromises_def await_def)

subsection \<open>C7: the list of registrations only grows, and all of it is dispatched\<close>

text \<open>
  Claim C7. A sequence of calls of \<open>on\<close> appends its registrations to the list, in
  their order, and keeps what was there, duplicates too. When a condition is triggered,
  the calls made are those of the entries under its name, each entry once, the earlier
  entries first.
\<close>

theorem handlers_appended_and_all_invoked_in_order:
  assumes "reachable p"
    and "tr \<in> set (trigger w (foldl (\<lambda>q (e, l). on e l q) p regs) c)"
  shows "customeErrorHandlers (foldl (\<lambda>q (e, l). on e l q) p regs) = customeErrorHandlers p @ regs \<and>
         calls tr =
           map (\<lambda>l. (lid l, event_name c)) (matching (event_name c) (customeErrorHandlers p)) @
           map (\<lambda>l. (lid l, event_name c)) (matching (event_name c) regs)"
  using calls_emit [OF reachable_foldl_on [OF assms(1)], of tr w regs "event_name c" "event_arg c"]
    assms(2)
  by (simp add: trigger_def customeErrorHandlers_foldl_on matching_append)

theorem handlers_appended_and_all_invoked_in_order_witness:
  "reachable (register 0 initial) \<and>
   hd (trigger \<lparr>Response_latest = \<lambda>t. 7, closes_after = \<lambda>s. Some 2,
       exponent_form = \<lambda>n. []\<rparr>
         (foldl (\<lambda>q (e, l). on e l q) (register 0 initial)
            [(''SIGINT'', \<lparr>lid = 1, run = \<lambda>signal. Returns\<rparr>),
             (''exit'', \<lparr>lid = 2, run = \<lambda>signal. Returns\<rparr>),
             (''SIGINT'', \<lparr>lid = 3, run = \<lambda>signal. Throws\<rparr>),
             (''SIGINT'', \<lparr>lid = 1, run = \<lambda>signal. Returns\<rparr>)]) SIGINT)
     \<in> set (trigger \<lparr>Response_latest = \<lambda>t. 7, closes_after = \<lambda>s. Some 2,
       exponent_form = \<lambda>n. []\<rparr>
         (foldl (\<lambda>q (e, l). on e l q) (register 0 initial)
            [(''SIGINT'', \<lparr>lid = 1, run = \<lambda>signal. Returns\<rparr>),
             (''exit'', \<lparr>lid = 2, run = \<lambda>signal. Returns\<rparr>),
             (''SIGINT'', \<lparr>lid = 3, run = \<lambda>signal. Throws\<rparr>),
             (''SIGINT'', \<lparr>lid = 1, run = \<lambda>signal. Returns\<rparr>)]) SIGINT) \<and>
   calls (hd (trigger \<lparr>Response_latest = \<lambda>t. 7, closes_after = \<lambda>s. Some 2,
       exponent_form = \<lambda>n. []\<rparr>
         (foldl (\<lambda>q (e, l). on e l q) (register 0 initial)
            [(''SIGINT'', \<lparr>lid = 1, run = \<lambda>signal. Returns\<rparr>),
             (''exit'', \<lparr>lid = 2, run = \<lambda>signal. Returns\<rparr>),
             (''SIGINT'', \<lparr>lid = 3, run = \<lambda>signal. Throws\<rparr>),
             (''SIGINT'', \<lparr>lid = 1, run = \<lambda>signal. Returns\<rparr>)]) SIGINT)) =
     [(1, ''SIGINT''), (3, ''SIGINT''), (1, ''SIGINT'')]"
proof -
  let ?regs = "[(''SIGINT'', \<lparr>lid = 1, run = \<lambda>signal. Returns\<rparr>),
             (''exit'', \<lparr>lid = 2, run = \<lambda>signal. Returns\<rparr>),
             (''SIGINT'', \<lparr>lid = 3, run = \<lambda>signal. Throws\<rparr>),
             (''SIGINT'', \<lparr>lid = 1, run = \<lambda>signal. Returns\<rparr>)]"
  let ?w = "\<lparr>Response_latest = \<lambda>t. 7, closes_after = \<lambda>s. Some 2,
       exponent_form = \<lambda>n. []\<rparr>"
  let ?trs = "trigger ?w (foldl (\<lambda>q (e, l). on e l q) (register 0 initial) ?regs) SIGINT"
  have reach: "reachable (register 0 initial)"
    by (intro reachable.intros)
  have "?trs \<noteq> []"
    by (simp add: trigger_def emit_def register_def on_def initial_def)
  then have tr: "hd ?trs \<in> set ?trs"
    by simp
  from handlers_appended_and_all_invoked_in_order [OF reach tr]
  have "calls (hd ?trs) = [(1, ''SIGINT''), (3, ''SIGINT''), (1, ''SIGINT'')]"
    by (simp add: matching_def register_def initial_def)
  with reach tr show ?thesis
    by simp
qed

subsection \<open>C8: on takes any name, and an unknown name is inert\<close>

text \<open>
  Claim C8. \<open>on\<close> appends the registration whatever the string is; it checks nothing and
  has no failing branch. When the string is none of the five names a condition is delivered
  with, the registration changes the reaction to no condition, and a function that was
  not registered before is never called.
\<close>

theorem on_unknown_name_inert:
  assumes "reachable p"
    and "s \<notin> {''uncaughtException'', ''unhandledRejection'', ''exit'', ''SIGINT'', ''SIGTERM''}"
    and "lid h \<notin> lid ` snd ` set (customeErrorHandlers p)"
  shows "customeErrorHandlers (on s h p) = customeErrorHandlers p @ [(s, h)] \<and>
         listeners (on s h p) = listeners p \<and>
         (\<forall>c. trigger w (on s h p) c = trigger w p c \<and>
              (\<forall>tr \<in> set (trigger w (on s h p) c). invocations (lid h) tr = []))"
proof -
  have "trigger w (on s h p) c = trigger w p c \<and>
        (\<forall>tr \<in> set (trigger w (on s h p) c). invocations (lid h) tr = [])" for c
  proof -
    from assms(2) have ne: "s \<noteq> event_name c"
      by (cases c) auto
    have same: "trigger w (on s h p) c = trigger w p c"
      using emit_on_other [OF assms(1) ne] by (simp add: trigger_def)
    from assms(3) have "lid h \<notin> lid ` set (matching (event_name c) (customeErrorHandlers p))"
      by (auto simp add: matching_def)
    from invocations_fresh [OF assms(1) _ this] same show ?thesis
      by (simp add: trigger_def)
  qed
  then show ?thesis by simp
qed

theorem on_unknown_name_inert_witness:
  "reachable (register 0 initial) \<and>
   ''sigterm'' \<notin> {''uncaughtException'', ''unhandledRejection'', ''exit'', ''SIGINT'', ''SIGTERM''} \<and>
   1 \<notin> lid ` snd ` set (customeErrorHandlers (register 0 initial)) \<and>
   customeErrorHandlers (on ''sigterm'' \<lparr>lid = 1, run = \<lambda>signal. Returns\<rparr> (register 0 initial)) =
     customeErrorHandlers (register 0 initial) @ [(''sigterm'', \<lparr>lid = 1, run = \<lambda>signal. Returns\<rparr>)] \<and>
   trigger \<lparr>Response_latest = \<lambda>t. 7, closes_after = \<lambda>s. Some 2,
       exponent_form = \<lambda>n. []\<rparr>
     (on ''sigterm'' \<lparr>lid = 1, run = \<lambda>signal. Returns\<rparr> (register 0 initial)) SIGTERM =
   trigger \<lparr>Response_latest = \<lambda>t. 7, closes_after = \<lambda>s. Some 2,
       exponent_form = \<lambda>n. []\<rparr> (register 0 initial) SIGTERM \<and>
   map (invocations 1)
     (trigger \<lparr>Response_latest = \<lambda>t. 7, closes_after = \<lambda>s. Some 2,
       exponent_form = \<lambda>n. []\<rparr>
        (on ''sigterm'' \<lparr>lid = 1, run = \<lambda>signal. Returns\<rparr> (register 0 initial)) SIGTERM) = [[]]"
proof -
  let ?h = "\<lparr>lid = 1, run = \<lambda>signal. Returns\<rparr>"
  let ?w = "\<lparr>Response_latest = \<lambda>t. 7, closes_after = \<lambda>s. Some 2,
       exponent_form = \<lambda>n. []\<rparr>"
  have reach: "reachable (register 0 initial)"
    by (intro reachable.intros)
  have unknown: "''sigterm'' \<notin>
      {''uncaughtException'', ''unhandledRejection'', ''exit'', ''SIGINT'', ''SIGTERM''}"
    by simp
  have fresh: "lid ?h \<notin> lid ` snd ` set (customeErrorHandlers (register 0 initial))"
    by (simp add: register_def initial_def)
  note inst = on_unknown_name_inert [OF reach unknown fresh, of ?w]
  have "map (invocations 1) (trigger ?w (register 0 initial) SIGTERM) = [[]]"
    by (simp add: trigger_def emit_def register_def initial_def signal_listener_def
          callCustomErrorHandler_def errorPromises_def await_def server_close_def
          invocations_def calls_def)
  with inst reach unknown fresh show ?thesis
    by simp
qed

subsection \<open>C9: the exit code after a crash is 16\<close>

text \<open>
  Claim C9. Let \<open>register\<close> have been called at least once, and let an uncaught
  exception or an unhandled rejection be triggered. Then there is a reaction, and every
  crash response it sends hands over \<open>killInstance\<close> as the callback. When the promise
  of every matching custom handler fulfils, and so when there is none, each listener does
  send one crash response, with the thrown value and that callback. Calling
  \<open>killInstance\<close> exits the process with code 16.
\<close>

theorem crash_callback_exits_16:
  assumes "reachable p" and "listeners p \<noteq> []"
    and "c = UncaughtException e \<or> c = UnhandledRejection e"
  shows "trigger w p c \<noteq> [] \<and>
         (\<forall>tr \<in> set (trigger w p c).
            (\<forall>x \<in> set (crash_responses tr). callback (snd x) = Some killInstance) \<and>
            ((\<forall>l \<in> set (matching (event_name c) (customeErrorHandlers p)).
                \<exists>n. awaited (run l (event_name c)) = Fulfilled n) \<longrightarrow>
             (\<exists>t. crash_responses tr =
                    [(t, \<lparr>err = e, res = Response_latest w t,
                          callback = Some killInstance, silent = None\<rparr>)]))) \<and>
         invoke killInstance = Process_exit (Some 16)"
proof -
  let ?hs = "customeErrorHandlers p"
  have "(\<forall>x \<in> set (crash_responses tr). callback (snd x) = Some killInstance) \<and>
        ((\<forall>l \<in> set (matching (event_name c) ?hs).
            \<exists>n. awaited (run l (event_name c)) = Fulfilled n) \<longrightarrow>
         (\<exists>t. crash_responses tr =
                [(t, \<lparr>err = e, res = Response_latest w t,
                      callback = Some killInstance, silent = None\<rparr>)]))"
    if "tr \<in> set (trigger w p c)" for tr
  proof -
    from crash_listener_of_name [OF assms(1,3) that] obtain pl where
      pl: "pl = Uncaught_exception \<or> pl = Unhandled_rejection" and
      name: "dispatch_name pl = event_name c" and
      tr: "tr = call_listener w ?hs pl e"
      by blast
    have always: "\<forall>x \<in> set (crash_responses tr). callback (snd x) = Some killInstance"
      unfolding tr using crash_listener_callback [OF pl] by blast
    have "\<exists>t. crash_responses tr =
                [(t, \<lparr>err = e, res = Response_latest w t,
                      callback = Some killInstance, silent = None\<rparr>)]"
      if ok: "\<forall>l \<in> set (matching (event_name c) ?hs).
                \<exists>n. awaited (run l (event_name c)) = Fulfilled n"
    proof -
      from callCustomErrorHandler_fulfils [of "event_name c" ?hs] ok
      obtain t where "snd (callCustomErrorHandler ?hs (event_name c)) = Fulfilled t"
        by blast
      with name have "snd (callCustomErrorHandler ?hs (dispatch_name pl)) = Fulfilled t"
        by simp
      from crash_listener_responses [OF pl this, of w e] show ?thesis
        unfolding tr ..
    qed
    with always show ?thesis by blast
  qed
  moreover have "trigger w p c \<noteq> []"
    by (rule trigger_nonempty [OF assms(1,2)])
  moreover have "invoke killInstance = Process_exit (Some 16)"
    by (simp add: killInstance_def)
  ultimately show ?thesis by blast
qed

theorem crash_callback_exits_16_witness:
  "reachable (on ''unhandledRejection'' \<lparr>lid = 1, run = \<lambda>signal. Resolves 2\<rparr> (register 0 initial)) \<and>
   listeners (on ''unhandledRejection'' \<lparr>lid = 1, run = \<lambda>signal. Resolves 2\<rparr> (register 0 initial))
     \<noteq> [] \<and>
   trigger \<lparr>Response_latest = \<lambda>t. 7, closes_after = \<lambda>s. Some 2,
       exponent_form = \<lambda>n. []\<rparr>
     (on ''unhandledRejection'' \<lparr>lid = 1, run = \<lambda>signal. Resolves 2\<rparr> (register 0 initial))
     (UnhandledRejection (Error ''late'')) =
   [[(0, Console_error ''Unhandled rejection''), (0, Call 1 ''unhandledRejection''),
     (2, SendCrashResponse \<lparr>err = Error ''late'', res = 7,
                            callback = Some killInstance, silent = None\<rparr>)]] \<and>
   (\<exists>t. crash_responses
      [(0, Console_error ''Unhandled rejection''), (0, Call 1 ''unhandledRejection''),
       (2, SendCrashResponse \<lparr>err = Error ''late'', res = 7,
                              callback = Some killInstance, silent = None\<rparr>)] =
      [(t, \<lparr>err = Error ''late'',
             res = Response_latest \<lparr>Response_latest = \<lambda>t. 7, closes_after = \<lambda>s. Some 2,
                     exponent_form = \<lambda>n. []\<rparr> t,
             callback = Some killInstance, silent = None\<rparr>)]) \<and>
   invoke killInstance = Process_exit (Some 16)"
proof -
  let ?w = "\<lparr>Response_latest = \<lambda>t. 7, closes_after = \<lambda>s. Some 2,
       exponent_form = \<lambda>n. []\<rparr>"
  let ?p = "on ''unhandledRejection'' \<lparr>lid = 1, run = \<lambda>signal. Resolves 2\<rparr> (register 0 initial)"
  let ?c = "UnhandledRejection (Error ''late'')"
  let ?tr = "[(0, Console_error ''Unhandled rejection''), (0, Call 1 ''unhandledRejection''),
       (2, SendCrashResponse \<lparr>err = Error ''late'', res = 7,
                              callback = Some killInstance, silent = None\<rparr>)] :: timed list"
  have reach: "reachable ?p"
    by (intro reachable.intros)
  have some: "listeners ?p \<noteq> []"
    by (simp add: register_def)
  have which: "?c = UncaughtException (Error ''late'') \<or> ?c = UnhandledRejection (Error ''late'')"
    by simp
  have run: "trigger ?w ?p ?c = [?tr]"
    by (simp add: trigger_def emit_def register_def on_def initial_def
          unhandledRejection_listener_def callCustomErrorHandler_def errorPromises_def await_def)
  then have tr: "?tr \<in> set (trigger ?w ?p ?c)"
    by simp
  have ok: "\<forall>l \<in> set (matching (event_name ?c) (customeErrorHandlers ?p)).
              \<exists>n. awaited (run l (event_name ?c)) = Fulfilled n"
    by (simp add: matching_def register_def initial_def)
  note inst = crash_callback_exits_16 [OF reach some which, of ?w]
  from inst tr ok
  have sent: "\<exists>t. crash_responses ?tr =
      [(t, \<lparr>err = Error ''late'', res = Response_latest ?w t,
             callback = Some killInstance, silent = None\<rparr>)]"
    by blast
  have kill: "invoke killInstance = Process_exit (Some 16)"
    using inst by blast
  from reach some run sent kill show ?thesis
    by (intro conjI)
qed

subsection \<open>C10: register has no guard\<close>

text \<open>
  Claim C10. Every call of \<open>register\<close> attaches five more listeners, whatever is
  attached already. From a process with no listener, one call attaches one listener for
  each condition, and after \<open>n\<close> calls a triggered condition runs that reaction \<open>n\<close>
  times: each of the \<open>n\<close> traces calls every matching custom handler.
\<close>

theorem register_unguarded:
  assumes "listeners p = []"
  shows "length (listeners (register s q)) = length (listeners q) + 5 \<and>
         length (trigger w (register s p) c) = 1 \<and>
         trigger w ((register s ^^ n) p) c = concat (replicate n (trigger w (register s p) c)) \<and>
         map calls (trigger w ((register s ^^ n) p) c) =
           replicate n (map (\<lambda>l. (lid l, event_name c))
                          (matching (event_name c) (customeErrorHandlers p)))"
proof -
  have five_more: "length (listeners (register s q)) = length (listeners q) + 5"
    by (simp add: listeners_register five_def)
  have "listeners (register s p) = listeners (register s initial)"
    using assms by (simp add: listeners_register initial_def)
  from trigger_once_listener [OF this, of c w] obtain pl where
    pl: "dispatch_name pl = event_name c" and
    one: "trigger w (register s p) c = [call_listener w (customeErrorHandlers p) pl (event_arg c)]"
    by auto
  have many: "trigger w ((register s ^^ n) p) c = concat (replicate n (trigger w (register s p) c))"
    using emit_funpow_register [OF assms] by (simp add: trigger_def)
  have "calls (call_listener w (customeErrorHandlers p) pl (event_arg c)) =
          map (\<lambda>l. (lid l, event_name c)) (matching (event_name c) (customeErrorHandlers p))"
    using calls_call_listener [of w "customeErrorHandlers p" pl] pl by simp
  with many one have
    "map calls (trigger w ((register s ^^ n) p) c) =
       replicate n (map (\<lambda>l. (lid l, event_name c))
                      (matching (event_name c) (customeErrorHandlers p)))"
    by (simp add: map_concat_replicate map_replicate_const [symmetric] del: map_replicate_const)
  with five_more one many show ?thesis by simp
qed

theorem register_unguarded_witness:
  "listeners (on ''exit'' \<lparr>lid = 1, run = \<lambda>signal. Returns\<rparr> initial) = [] \<and>
   length (listeners (register 0 (register 0 initial))) = length (listeners (register 0 initial)) + 5 \<and>
   length (trigger \<lparr>Response_latest = \<lambda>t. 7, closes_after = \<lambda>s. Some 2,
       exponent_form = \<lambda>n. []\<rparr>
     (register 0 (on ''exit'' \<lparr>lid = 1, run = \<lambda>signal. Returns\<rparr> initial)) (ProcessExit 2)) = 1 \<and>
   map calls
     (trigger \<lparr>Response_latest = \<lambda>t. 7, closes_after = \<lambda>s. Some 2,
       exponent_form = \<lambda>n. []\<rparr>
        ((register 0 ^^ 3) (on ''exit'' \<lparr>lid = 1, run = \<lambda>signal. Returns\<rparr> initial)) (ProcessExit 2)) =
   [[(1, ''exit'')], [(1, ''exit'')], [(1, ''exit'')]]"
proof -
  let ?p = "on ''exit'' \<lparr>lid = 1, run = \<lambda>signal. Returns\<rparr> initial"
  let ?w = "\<lparr>Response_latest = \<lambda>t. 7, closes_after = \<lambda>s. Some 2,
       exponent_form = \<lambda>n. []\<rparr>"
  have none: "listeners ?p = []"
    by (simp add: initial_def)
  note inst = register_unguarded [OF none, of 0 "register 0 initial" ?w "ProcessExit 2" 3]
  note more = inst [THEN conjunct1]
  note one = inst [THEN conjunct2, THEN conjunct1]
  note each = inst [THEN conjunct2, THEN conjunct2, THEN conjunct2]
  have "replicate 3 (map (\<lambda>l. (lid l, event_name (ProcessExit 2)))
                      (matching (event_name (ProcessExit 2)) (customeErrorHandlers ?p))) =
          [[(1, ''exit'')], [(1, ''exit'')], [(1, ''exit'')]]"
    by (simp add: matching_def initial_def numeral_3_eq_3)
  with each have
    "map calls (trigger ?w ((register 0 ^^ 3) ?p) (ProcessExit 2)) =
       [[(1, ''exit'')], [(1, ''exit'')], [(1, ''exit'')]]"
    by (rule trans)
  with none more one show ?thesis
    by (intro conjI)
qed

end
